theory Spec2Isabelle
  imports Complex_Main "HOL-Library.Word"
begin

section \<open>JavaScript numbers\<close>

text \<open>
  The filters compute with JavaScript numbers.  Three kinds of quantity occur:

  \<^item> counts, sizes and hash values: non-negative integers.  They are modelled as
    \<open>nat\<close>.  A double holds every integer up to \<open>2 ^ 53\<close> exactly.  A counter that
    one call raises by one stays below that bound in any run; the index expression
    \<open>hash1 + i * hash2\<close> can pass it, and there the rounding of the double is written
    out (\<open>fl\<close> below).  Arrays and loops are as long as their bound says: the limits
    of memory are not modelled.
  \<^item> rates and logarithms: modelled as \<open>real\<close>.  The rounding error of a double
    in a quotient, a power or \<open>Math.log\<close> is not modelled.
  \<^item> the special values \<open>Infinity\<close>, \<open>-Infinity\<close> and \<open>NaN\<close>, which the sources
    reach by dividing by zero and by \<open>Math.log(0)\<close>: modelled exactly, by the
    constructors of \<open>jsnum\<close>.  The sign of a zero is not modelled.
\<close>

datatype jsnum = Num real | PosInf | NegInf | NaN

text \<open>The value \<open>undefined\<close> of a field that no constructor has assigned.\<close>

datatype jsval = Undefined | Number jsnum

text \<open>\<open>a * b\<close>\<close>

fun js_mul :: "jsnum \<Rightarrow> jsnum \<Rightarrow> jsnum" where
  "js_mul (Num a) (Num b) = Num (a * b)"
| "js_mul NaN _ = NaN"
| "js_mul _ NaN = NaN"
| "js_mul (Num a) PosInf = (if a = 0 then NaN else if 0 < a then PosInf else NegInf)"
| "js_mul (Num a) NegInf = (if a = 0 then NaN else if 0 < a then NegInf else PosInf)"
| "js_mul PosInf (Num b) = (if b = 0 then NaN else if 0 < b then PosInf else NegInf)"
| "js_mul NegInf (Num b) = (if b = 0 then NaN else if 0 < b then NegInf else PosInf)"
| "js_mul PosInf PosInf = PosInf"
| "js_mul PosInf NegInf = NegInf"
| "js_mul NegInf PosInf = NegInf"
| "js_mul NegInf NegInf = PosInf"

text \<open>\<open>a / b\<close>: a finite number over zero is an infinity, zero over zero is \<open>NaN\<close>.\<close>

fun js_div :: "jsnum \<Rightarrow> jsnum \<Rightarrow> jsnum" where
  "js_div (Num a) (Num b) =
     (if b \<noteq> 0 then Num (a / b)
      else if a = 0 then NaN else if 0 < a then PosInf else NegInf)"
| "js_div NaN _ = NaN"
| "js_div _ NaN = NaN"
| "js_div (Num a) PosInf = Num 0"
| "js_div (Num a) NegInf = Num 0"
| "js_div PosInf (Num b) = (if 0 \<le> b then PosInf else NegInf)"
| "js_div NegInf (Num b) = (if 0 \<le> b then NegInf else PosInf)"
| "js_div PosInf PosInf = NaN"
| "js_div PosInf NegInf = NaN"
| "js_div NegInf PosInf = NaN"
| "js_div NegInf NegInf = NaN"

text \<open>\<open>a > b\<close>: every comparison with \<open>NaN\<close> is false.\<close>

fun js_gt :: "jsnum \<Rightarrow> jsnum \<Rightarrow> bool" where
  "js_gt (Num a) (Num b) = (b < a)"
| "js_gt NaN _ = False"
| "js_gt _ NaN = False"
| "js_gt PosInf PosInf = False"
| "js_gt PosInf _ = True"
| "js_gt _ PosInf = False"
| "js_gt NegInf _ = False"
| "js_gt _ NegInf = True"

text \<open>\<open>Math.ceil\<close>, \<open>Math.log\<close> and \<open>x ** n\<close> for a count \<open>n\<close>.\<close>

fun js_ceil :: "jsnum \<Rightarrow> jsnum" where
  "js_ceil (Num a) = Num (of_int \<lceil>a\<rceil>)"
| "js_ceil x = x"

fun js_log :: "jsnum \<Rightarrow> jsnum" where
  "js_log (Num a) = (if a < 0 then NaN else if a = 0 then NegInf else Num (ln a))"
| "js_log PosInf = PosInf"
| "js_log NegInf = NaN"
| "js_log NaN = NaN"

fun js_pow :: "jsnum \<Rightarrow> nat \<Rightarrow> jsnum" where
  "js_pow x 0 = Num 1"
| "js_pow (Num a) n = Num (a ^ n)"
| "js_pow PosInf n = PosInf"
| "js_pow NegInf n = (if even n then PosInf else NegInf)"
| "js_pow NaN n = NaN"

text \<open>
  \<open>+(x).toFixed(3)\<close>: the decimal with three digits after the point that is closest to
  \<open>x\<close>, the larger one in magnitude if two are equally close, read back as a number.
  From \<open>10 ^ 21\<close> on \<open>toFixed\<close> prints the number itself.
\<close>

definition round3 :: "real \<Rightarrow> real" where
  "round3 x = sgn x * of_int \<lfloor>\<bar>x\<bar> * 1000 + 1 / 2\<rfloor> / 1000"

fun js_toFixed3 :: "jsnum \<Rightarrow> jsnum" where
  "js_toFixed3 (Num a) = (if 10 ^ 21 \<le> \<bar>a\<bar> then Num a else Num (round3 a))"
| "js_toFixed3 x = x"

text \<open>\<open>x += 1\<close> on a field: \<open>undefined\<close> converts to \<open>NaN\<close>.\<close>

fun js_plus_one :: "jsval \<Rightarrow> jsval" where
  "js_plus_one Undefined = Number NaN"
| "js_plus_one (Number (Num a)) = Number (Num (a + 1))"
| "js_plus_one (Number x) = Number x"

subsection \<open>Integers in a double\<close>

text \<open>
  A double has a significand of 53 bits.  \<open>fl n\<close> is the double closest to the
  natural number \<open>n\<close>, the one with the even significand if two are equally close:
  the result of an addition or a multiplication of two doubles whose exact result is
  \<open>n\<close>.  With \<open>n\<close> of \<open>bitlen n\<close> binary digits, the doubles around \<open>n\<close> are the
  multiples of \<open>u = 2 ^ (bitlen n - 53)\<close>.  (The range of a double ends near
  \<open>2 ^ 1024\<close>, far above any index expression.)
\<close>

fun bitlen :: "nat \<Rightarrow> nat" where
  "bitlen n = (if n = 0 then 0 else Suc (bitlen (n div 2)))"

declare bitlen.simps [simp del]

definition fl :: "nat \<Rightarrow> nat" where
  "fl n =
     (let u = 2 ^ (bitlen n - 53); q = n div u; r = n mod u
      in if 2 * r < u then q * u
         else if u < 2 * r then (q + 1) * u
         else if even q then q * u else (q + 1) * u)"

text \<open>\<open>a % b\<close> on non-negative integers: the remainder, and \<open>NaN\<close> (here \<open>None\<close>) for
  the divisor zero.\<close>

definition js_mod :: "nat \<Rightarrow> nat \<Rightarrow> nat option" where
  "js_mod a b = (if b = 0 then None else Some (a mod b))"

section \<open>SafeBloomFilter: sizing\<close>

datatype error = InvalidFalsePositiveRate | FilterAtCapacity | InvalidLength

text \<open>\<open>SafeBloomFilter.estimateNumberBits\<close>; \<open>Inl\<close> is the thrown error.\<close>

definition estimateNumberBits :: "int \<Rightarrow> real \<Rightarrow> error + jsnum" where
  "estimateNumberBits expectedInserts falsePositiveRate =
     (if expectedInserts \<le> 0 then Inr (Num 0)
      else if falsePositiveRate < 0 \<or> falsePositiveRate > 1 then Inl InvalidFalsePositiveRate
      else
        let ln2Sq = js_pow (Num (ln 2)) 2;
            nLnP = js_mul (Num (of_int (- expectedInserts))) (js_log (Num falsePositiveRate))
        in Inr (js_ceil (js_div nLnP ln2Sq)))"

text \<open>\<open>SafeBloomFilter.optimalNumHashFunctions\<close>\<close>

definition optimalNumHashFunctions :: "int \<Rightarrow> jsnum \<Rightarrow> jsnum" where
  "optimalNumHashFunctions expectedInserts bits_arg =
     (let min_k = Num 1;
          optimal = js_mul (js_div bits_arg (Num (of_int expectedInserts))) (Num (ln 2))
      in if js_gt optimal min_k then js_ceil optimal else min_k)"

section \<open>The collaborators: bit vector and hash\<close>

text \<open>
  Modelled from the spec: the bit storage (package \<open>bit-vec\<close>) is not among the
  sources.  The spec describes it as a mutable bit array of fixed length with
  \<open>new(length)\<close>, \<open>get(i)\<close>, \<open>set(i, bool)\<close>, \<open>count()\<close> (the number of set bits)
  and \<open>equals(other)\<close>, all bits zero at first, and \<open>bitArray.length = bitCount\<close>.
  An index is a \<open>nat option\<close>, \<open>None\<close> for \<open>NaN\<close>.  The spec does not say what an index
  outside the array does; here it reads as unset and writing it changes nothing.  No
  filter with \<open>bits > 0\<close> produces one.
\<close>

type_synonym BitVector = "bool list"

definition BitVector_new :: "nat \<Rightarrow> BitVector" where
  "BitVector_new n = replicate n False"

definition BitVector_get :: "BitVector \<Rightarrow> nat option \<Rightarrow> bool" where
  "BitVector_get bv idx =
     (case idx of None \<Rightarrow> False | Some i \<Rightarrow> if i < length bv then bv ! i else False)"

definition BitVector_set :: "BitVector \<Rightarrow> nat option \<Rightarrow> bool \<Rightarrow> BitVector" where
  "BitVector_set bv idx v =
     (case idx of None \<Rightarrow> bv | Some i \<Rightarrow> if i < length bv then bv[i := v] else bv)"

definition BitVector_count :: "BitVector \<Rightarrow> nat" where
  "BitVector_count bv = length (filter (\<lambda>b. b) bv)"

definition BitVector_bits :: "BitVector \<Rightarrow> nat" where
  "BitVector_bits bv = length bv"

definition BitVector_equals :: "BitVector \<Rightarrow> BitVector \<Rightarrow> bool" where
  "BitVector_equals a b = (a = b)"

text \<open>
  Modelled from the spec: the hash (package \<open>imurmurhash\<close>) is not among the sources.
  The spec describes it as a seeded, deterministic 32-bit hash over string input with
  \<open>new(seed)\<close>, \<open>hash(bytes)\<close> and \<open>reset(seed)\<close>.  The digest itself is a parameter
  \<open>H\<close> of the model, a function of the seed and of the input; its value is a 32-bit
  word.  An instance holds its seed and the input fed to it since the last reset:
  \<open>hash\<close> feeds more input, \<open>result\<close> is the digest of all of it.
\<close>

type_synonym hasher = "nat \<Rightarrow> string \<Rightarrow> 32 word"

record MurMur =
  mm_seed :: nat
  mm_fed :: string

definition MurMur_new :: "string \<Rightarrow> nat \<Rightarrow> MurMur" where
  "MurMur_new key s = \<lparr>mm_seed = s, mm_fed = key\<rparr>"

definition MurMur_hash :: "MurMur \<Rightarrow> string \<Rightarrow> MurMur" where
  "MurMur_hash m key = m\<lparr>mm_fed := mm_fed m @ key\<rparr>"

definition MurMur_result :: "hasher \<Rightarrow> MurMur \<Rightarrow> nat" where
  "MurMur_result H m = unat (H (mm_seed m) (mm_fed m))"

definition MurMur_reset :: "MurMur \<Rightarrow> nat \<Rightarrow> MurMur" where
  "MurMur_reset m s = \<lparr>mm_seed = s, mm_fed = []\<rparr>"

definition seedOne :: nat where
  "seedOne = 535345345"

definition seedTwo :: nat where
  "seedTwo = 312312323"

section \<open>BloomFilter (BloomFilter.js)\<close>

record bloomFilter =
  bits :: nat
  k :: nat
  bitArray :: BitVector
  hashOne :: MurMur
  hashTwo :: MurMur
  inserts :: nat

definition BloomFilter_new :: "nat \<Rightarrow> nat \<Rightarrow> bloomFilter" where
  "BloomFilter_new bits_arg numHashers =
     \<lparr>bits = bits_arg, k = numHashers, bitArray = BitVector_new bits_arg,
      hashOne = MurMur_new [] seedOne, hashTwo = MurMur_new [] seedTwo, inserts = 0\<rparr>"

text \<open>
  One index, \<open>(hash1 + (i * hash2)) % bits\<close>: the product and the sum are each rounded
  to a double.
\<close>

definition bitIndex :: "nat \<Rightarrow> nat \<Rightarrow> nat \<Rightarrow> nat \<Rightarrow> nat option" where
  "bitIndex hash1 hash2 m i = js_mod (fl (hash1 + fl (i * hash2))) m"

text \<open>The loop \<open>for (let i = 0; i < this.k; i += 1) kHashes.push(...)\<close>.\<close>

function kHashes_loop :: "nat \<Rightarrow> nat \<Rightarrow> nat \<Rightarrow> nat \<Rightarrow> nat \<Rightarrow> nat option list \<Rightarrow> nat option list"
  where
  "kHashes_loop hash1 hash2 m n i kHashes =
     (if i < n then kHashes_loop hash1 hash2 m n (i + 1) (kHashes @ [bitIndex hash1 hash2 m i])
      else kHashes)"
  by pat_completeness auto
termination
  by (relation "measure (\<lambda>(hash1, hash2, m, n, i, kHashes). n - i)") auto

declare kHashes_loop.simps [simp del]

text \<open>
  \<open>calculateBitIndices\<close> hashes the key into both instances, reads the two results,
  fills the array and resets both instances.  It returns the array and the filter as
  the call leaves it.
\<close>

definition calculateBitIndices ::
  "hasher \<Rightarrow> 'a bloomFilter_scheme \<Rightarrow> string \<Rightarrow> nat option list \<times> 'a bloomFilter_scheme" where
  "calculateBitIndices H f key =
     (let f1 = f\<lparr>hashOne := MurMur_hash (hashOne f) key\<rparr>;
          hash1 = MurMur_result H (hashOne f1);
          f2 = f1\<lparr>hashTwo := MurMur_hash (hashTwo f1) key\<rparr>;
          hash2 = MurMur_result H (hashTwo f2);
          kHashes = kHashes_loop hash1 hash2 (bits f2) (k f2) 0 [];
          f3 = f2\<lparr>hashOne := MurMur_reset (hashOne f2) seedOne\<rparr>;
          f4 = f3\<lparr>hashTwo := MurMur_reset (hashTwo f3) seedTwo\<rparr>
      in (kHashes, f4))"

text \<open>The loop of \<open>add\<close>: \<open>this.bitArray.set(indices[i], 1)\<close> for each index in turn.\<close>

fun set_loop :: "BitVector \<Rightarrow> nat option list \<Rightarrow> BitVector" where
  "set_loop bv [] = bv"
| "set_loop bv (idx # indices) = set_loop (BitVector_set bv idx True) indices"

text \<open>\<open>add\<close> returns \<open>this\<close>: the filter after the call.\<close>

definition add :: "hasher \<Rightarrow> 'a bloomFilter_scheme \<Rightarrow> string \<Rightarrow> 'a bloomFilter_scheme" where
  "add H f key =
     (let (indices, f1) = calculateBitIndices H f key;
          f2 = f1\<lparr>bitArray := set_loop (bitArray f1) indices\<rparr>
      in f2\<lparr>inserts := inserts f2 + 1\<rparr>)"

text \<open>The loop of \<open>contains\<close>: \<open>false\<close> at the first index whose bit is not set.\<close>

fun contains_loop :: "BitVector \<Rightarrow> nat option list \<Rightarrow> bool" where
  "contains_loop bv [] = True"
| "contains_loop bv (idx # indices) =
     (if \<not> BitVector_get bv idx then False else contains_loop bv indices)"

definition contains :: "hasher \<Rightarrow> 'a bloomFilter_scheme \<Rightarrow> string \<Rightarrow> bool \<times> 'a bloomFilter_scheme"
  where
  "contains H f key =
     (let (indices, f1) = calculateBitIndices H f key
      in (contains_loop (bitArray f1) indices, f1))"

definition equals :: "'a bloomFilter_scheme \<Rightarrow> 'b bloomFilter_scheme \<Rightarrow> bool" where
  "equals f other = BitVector_equals (bitArray other) (bitArray f)"

definition falsePositiveRate :: "'a bloomFilter_scheme \<Rightarrow> jsnum" where
  "falsePositiveRate f =
     (let rate = js_pow (js_div (Num (real (BitVector_count (bitArray f))))
                                (Num (real (BitVector_bits (bitArray f))))) (k f)
      in js_toFixed3 rate)"

text \<open>
  A filter in use: a sequence of calls on one instance, each leaving the filter to
  the next.
\<close>

datatype call = Add string | Contains string | CalculateBitIndices string

fun perform :: "hasher \<Rightarrow> 'a bloomFilter_scheme \<Rightarrow> call \<Rightarrow> 'a bloomFilter_scheme" where
  "perform H f (Add key) = add H f key"
| "perform H f (Contains key) = snd (contains H f key)"
| "perform H f (CalculateBitIndices key) = snd (calculateBitIndices H f key)"

definition run :: "hasher \<Rightarrow> 'a bloomFilter_scheme \<Rightarrow> call list \<Rightarrow> 'a bloomFilter_scheme" where
  "run H f calls = foldl (perform H) f calls"

section \<open>SafeBloomFilter (SafeBloomFilter.js)\<close>

text \<open>
  \<open>SafeBloomFilter\<close> extends \<open>BloomFilter\<close>.  The fields it reads (\<open>inserts\<close>,
  \<open>bitArray\<close>) and the method it calls (\<open>calculateBitIndices\<close>) are those of the class
  in BloomFilter.js, which is taken as the base class; the class in index.js has no
  field \<open>inserts\<close>, and index.js exports no name \<open>BloomFilter\<close>.
\<close>

record safeBloomFilter = bloomFilter +
  capacity :: int

text \<open>
  The constructor evaluates the arguments of \<open>super\<close> in order: \<open>estimateNumberBits\<close>,
  then \<open>optimalNumHashFunctions\<close> on a second call of \<open>estimateNumberBits\<close>.  The fields
  \<open>bits\<close> and \<open>k\<close> hold natural numbers.  The sizing functions return a natural number
  or \<open>Infinity\<close>; a bit array of infinite length does not exist, and the constructor of
  the model ends with \<open>Inl InvalidLength\<close> there.
\<close>

definition to_length :: "jsnum \<Rightarrow> nat option" where
  "to_length x =
     (case x of
        Num r \<Rightarrow> if 0 \<le> r \<and> r = of_int \<lfloor>r\<rfloor> then Some (nat \<lfloor>r\<rfloor>) else None
      | _ \<Rightarrow> None)"

definition SafeBloomFilter_new :: "int \<Rightarrow> real \<Rightarrow> error + safeBloomFilter" where
  "SafeBloomFilter_new expectedInserts falsePositiveRate_arg =
     (case estimateNumberBits expectedInserts falsePositiveRate_arg of
        Inl e \<Rightarrow> Inl e
      | Inr b \<Rightarrow>
          (case estimateNumberBits expectedInserts falsePositiveRate_arg of
             Inl e \<Rightarrow> Inl e
           | Inr b' \<Rightarrow>
               (case (to_length b, to_length (optimalNumHashFunctions expectedInserts b')) of
                  (Some m, Some h) \<Rightarrow>
                    Inr \<lparr>bits = m, k = h, bitArray = BitVector_new m,
                         hashOne = MurMur_new [] seedOne, hashTwo = MurMur_new [] seedTwo,
                         inserts = 0, capacity = expectedInserts\<rparr>
                | _ \<Rightarrow> Inl InvalidLength)))"

text \<open>
  \<open>SafeBloomFilter.add\<close>: the first component is the thrown error, \<open>None\<close> when the call
  returns; the second is the filter as the call leaves it.
\<close>

definition SafeBloomFilter_add ::
  "hasher \<Rightarrow> safeBloomFilter \<Rightarrow> string \<Rightarrow> error option \<times> safeBloomFilter" where
  "SafeBloomFilter_add H f key =
     (if int (inserts f) < capacity f then
        let (indices, f1) = calculateBitIndices H f key;
            f2 = f1\<lparr>bitArray := set_loop (bitArray f1) indices\<rparr>;
            f3 = f2\<lparr>inserts := inserts f2 + 1\<rparr>
        in (None, f3)
      else (Some FilterAtCapacity, f))"

text \<open>One \<open>add\<close> per key, in order; the outcomes of the calls and the filter at the end.\<close>

fun SafeBloomFilter_adds ::
  "hasher \<Rightarrow> safeBloomFilter \<Rightarrow> string list \<Rightarrow> error option list \<times> safeBloomFilter" where
  "SafeBloomFilter_adds H f [] = ([], f)"
| "SafeBloomFilter_adds H f (key # keys) =
     (let (r, f1) = SafeBloomFilter_add H f key;
          (rs, f2) = SafeBloomFilter_adds H f1 keys
      in (r # rs, f2))"

section \<open>The BloomFilter of index.js\<close>

text \<open>
  The class in index.js names its size \<open>size\<close> and counts in \<open>count\<close>, a field its
  constructor does not assign.
\<close>

record indexBloomFilter =
  size_i :: nat
  k_i :: nat
  bitArray_i :: BitVector
  hashOne_i :: MurMur
  hashTwo_i :: MurMur
  count_i :: jsval

definition index_BloomFilter_new :: "nat \<Rightarrow> nat \<Rightarrow> indexBloomFilter" where
  "index_BloomFilter_new bits_arg numHashers =
     \<lparr>size_i = bits_arg, k_i = numHashers, bitArray_i = BitVector_new bits_arg,
      hashOne_i = MurMur_new [] seedOne, hashTwo_i = MurMur_new [] seedTwo,
      count_i = Undefined\<rparr>"

definition index_calculateBitIndices ::
  "hasher \<Rightarrow> indexBloomFilter \<Rightarrow> string \<Rightarrow> nat option list \<times> indexBloomFilter" where
  "index_calculateBitIndices H f key =
     (let f1 = f\<lparr>hashOne_i := MurMur_hash (hashOne_i f) key\<rparr>;
          hash1 = MurMur_result H (hashOne_i f1);
          f2 = f1\<lparr>hashTwo_i := MurMur_hash (hashTwo_i f1) key\<rparr>;
          hash2 = MurMur_result H (hashTwo_i f2);
          kHashes = kHashes_loop hash1 hash2 (size_i f2) (k_i f2) 0 [];
          f3 = f2\<lparr>hashOne_i := MurMur_reset (hashOne_i f2) seedOne\<rparr>;
          f4 = f3\<lparr>hashTwo_i := MurMur_reset (hashTwo_i f3) seedTwo\<rparr>
      in (kHashes, f4))"

text \<open>The loop of its \<open>add\<close>: the bit array and \<open>numAlreadySet\<close> after the loop.\<close>

fun index_add_loop :: "BitVector \<Rightarrow> nat \<Rightarrow> nat option list \<Rightarrow> BitVector \<times> nat" where
  "index_add_loop bv numAlreadySet [] = (bv, numAlreadySet)"
| "index_add_loop bv numAlreadySet (idx # indices) =
     index_add_loop (BitVector_set bv idx True)
       (if BitVector_get bv idx then numAlreadySet + 1 else numAlreadySet) indices"

definition index_add :: "hasher \<Rightarrow> indexBloomFilter \<Rightarrow> string \<Rightarrow> indexBloomFilter" where
  "index_add H f key =
     (let (indices, f1) = index_calculateBitIndices H f key;
          (bv, numAlreadySet) = index_add_loop (bitArray_i f1) 0 indices;
          f2 = f1\<lparr>bitArray_i := bv\<rparr>
      in if numAlreadySet < length indices then f2\<lparr>count_i := js_plus_one (count_i f2)\<rparr>
         else f2)"

section \<open>Auxiliary definitions for the proofs\<close>

text \<open>
  What every call leaves behind on a filter that the constructor made: the bit array
  has the length \<open>bits\<close>, and both hash instances are in their seeded state.
\<close>

definition invar :: "'a bloomFilter_scheme \<Rightarrow> bool" where
  "invar f = (length (bitArray f) = bits f
     \<and> hashOne f = MurMur_new [] seedOne \<and> hashTwo f = MurMur_new [] seedTwo)"

text \<open>Two digests to run the model on: the seed plus the sum of the character codes,
  and the constant with the largest 32-bit value.\<close>

definition sampleHash :: hasher where
  "sampleHash s key = word_of_nat (s + sum_list (map of_char key))"

definition topHash :: hasher where
  "topHash s key = 4294967295"


section \<open>Facts about the operations\<close>

lemma kHashes_loop_eq:
  "kHashes_loop h1 h2 m n i acc = acc @ map (bitIndex h1 h2 m) [i..<n]"
proof (induction h1 h2 m n i acc rule: kHashes_loop.induct)
  case (1 h1 h2 m n i acc)
  show ?case
  proof (cases "i < n")
    case True
    with 1 show ?thesis
      by (subst kHashes_loop.simps) (simp add: upt_conv_Cons)
  next
    case False
    then show ?thesis
      by (subst kHashes_loop.simps) simp
  qed
qed

lemma fst_calculateBitIndices:
  "fst (calculateBitIndices H f key) =
     map (bitIndex (unat (H (mm_seed (hashOne f)) (mm_fed (hashOne f) @ key)))
                   (unat (H (mm_seed (hashTwo f)) (mm_fed (hashTwo f) @ key))) (bits f))
         [0..<k f]"
  by (simp add: calculateBitIndices_def Let_def kHashes_loop_eq MurMur_hash_def MurMur_result_def)

lemma snd_calculateBitIndices:
  "snd (calculateBitIndices H f key) =
     f\<lparr>hashOne := MurMur_new [] seedOne, hashTwo := MurMur_new [] seedTwo\<rparr>"
  by (simp add: calculateBitIndices_def Let_def MurMur_reset_def MurMur_new_def)

lemma snd_calculateBitIndices_invar:
  "invar f \<Longrightarrow> snd (calculateBitIndices H f key) = f"
  by (simp add: snd_calculateBitIndices invar_def)

lemma fst_calculateBitIndices_invar:
  "invar f \<Longrightarrow> fst (calculateBitIndices H f key) =
     map (bitIndex (unat (H seedOne key)) (unat (H seedTwo key)) (bits f)) [0..<k f]"
  by (simp add: fst_calculateBitIndices invar_def MurMur_new_def)

lemma length_set_loop [simp]: "length (set_loop bv idxs) = length bv"
  by (induction idxs arbitrary: bv) (auto simp: BitVector_set_def split: option.splits)

lemma get_set_loop_mono:
  "BitVector_get bv j \<Longrightarrow> BitVector_get (set_loop bv idxs) j"
proof (induction idxs arbitrary: bv)
  case Nil
  then show ?case by simp
next
  case (Cons idx idxs)
  have "BitVector_get (BitVector_set bv idx True) j"
    using Cons.prems
    by (auto simp: BitVector_get_def BitVector_set_def nth_list_update split: option.splits if_splits)
  then show ?case
    by (simp add: Cons.IH)
qed

lemma get_set_loop_member:
  "Some i \<in> set idxs \<Longrightarrow> i < length bv \<Longrightarrow> BitVector_get (set_loop bv idxs) (Some i)"
proof (induction idxs arbitrary: bv)
  case Nil
  then show ?case by simp
next
  case (Cons idx idxs)
  show ?case
  proof (cases "idx = Some i")
    case True
    have "BitVector_get (BitVector_set bv idx True) (Some i)"
      using True Cons.prems(2) by (simp add: BitVector_get_def BitVector_set_def)
    then show ?thesis
      by (simp add: get_set_loop_mono)
  next
    case False
    with Cons.prems have "Some i \<in> set idxs" by simp
    moreover have "i < length (BitVector_set bv idx True)"
      using Cons.prems(2) by (simp add: BitVector_set_def split: option.splits)
    ultimately show ?thesis
      using Cons.IH by simp
  qed
qed

lemma contains_loop_list_all:
  "contains_loop bv idxs = list_all (BitVector_get bv) idxs"
  by (induction idxs) auto

lemma bitIndex_in_range:
  "0 < m \<Longrightarrow> \<exists>j. bitIndex h1 h2 m i = Some j \<and> j < m"
  by (simp add: bitIndex_def js_mod_def)

lemma add_fields:
  "bits (add H f key) = bits f" "k (add H f key) = k f"
  "inserts (add H f key) = inserts f + 1"
  "hashOne (add H f key) = MurMur_new [] seedOne"
  "hashTwo (add H f key) = MurMur_new [] seedTwo"
  "bitArray (add H f key) = set_loop (bitArray f) (fst (calculateBitIndices H f key))"
  by (simp_all add: add_def split_beta Let_def snd_calculateBitIndices)

lemma new_fields:
  "bits (BloomFilter_new m h) = m" "k (BloomFilter_new m h) = h"
  "inserts (BloomFilter_new m h) = 0" "bitArray (BloomFilter_new m h) = replicate m False"
  by (simp_all add: BloomFilter_new_def BitVector_new_def)

lemma invar_new: "invar (BloomFilter_new m h)"
  by (simp add: invar_def BloomFilter_new_def BitVector_new_def)

lemma invar_add: "invar f \<Longrightarrow> invar (add H f key)"
  by (simp add: invar_def add_fields)

lemma perform_invar: "invar f \<Longrightarrow> invar (perform H f c)"
  by (cases c) (simp_all add: invar_add snd_calculateBitIndices_invar contains_def split_beta)

lemma perform_bits_k: "bits (perform H f c) = bits f" "k (perform H f c) = k f"
  by (cases c; simp add: add_fields contains_def split_beta snd_calculateBitIndices)+

lemma perform_get_mono:
  "BitVector_get (bitArray f) j \<Longrightarrow> BitVector_get (bitArray (perform H f c)) j"
  by (cases c) (simp_all add: add_fields get_set_loop_mono contains_def split_beta snd_calculateBitIndices)

lemma run_invar: "invar f \<Longrightarrow> invar (run H f calls)"
  unfolding run_def by (induction calls arbitrary: f) (simp_all add: perform_invar)

lemma run_bits_k: "bits (run H f calls) = bits f" "k (run H f calls) = k f"
  unfolding run_def by (induction calls arbitrary: f; simp add: perform_bits_k)+

lemma run_get_mono:
  "BitVector_get (bitArray f) j \<Longrightarrow> BitVector_get (bitArray (run H f calls)) j"
  unfolding run_def by (induction calls arbitrary: f) (simp_all add: perform_get_mono)

lemma add_sets_indices:
  assumes "invar f" "0 < bits f"
  shows "list_all (BitVector_get (bitArray (add H f key))) (fst (calculateBitIndices H f key))"
proof -
  let ?idxs = "fst (calculateBitIndices H f key)"
  have "BitVector_get (set_loop (bitArray f) ?idxs) idx" if "idx \<in> set ?idxs" for idx
  proof -
    from that obtain i where "idx = bitIndex (unat (H seedOne key)) (unat (H seedTwo key)) (bits f) i"
      using assms(1) by (auto simp: fst_calculateBitIndices_invar)
    then obtain j where j: "idx = Some j" "j < bits f"
      using bitIndex_in_range [OF assms(2)] by metis
    then have "j < length (bitArray f)"
      using assms(1) by (simp add: invar_def)
    with that j show ?thesis
      by (simp add: get_set_loop_member)
  qed
  then show ?thesis
    by (simp add: list_all_iff add_fields)
qed

lemma contains_fields:
  "snd (contains H f key) = snd (calculateBitIndices H f key)"
  "fst (contains H f key) = contains_loop (bitArray f) (fst (calculateBitIndices H f key))"
  by (simp_all add: contains_def split_beta snd_calculateBitIndices)


lemma get_new_False: "BitVector_get (BitVector_new m) idx = False"
  by (simp add: BitVector_get_def BitVector_new_def split: option.splits)


section \<open>The indices of a key\<close>

lemma bitlen_le: "n < 2 ^ e \<Longrightarrow> bitlen n \<le> e"
proof (induction e arbitrary: n)
  case 0
  then show ?case by (simp add: bitlen.simps)
next
  case (Suc e)
  show ?case
  proof (cases "n = 0")
    case True
    then show ?thesis by (simp add: bitlen.simps)
  next
    case False
    from Suc.prems have "n div 2 < 2 ^ e" by simp
    then have "bitlen (n div 2) \<le> e" by (rule Suc.IH)
    with False show ?thesis by (subst bitlen.simps) simp
  qed
qed

lemma fl_exact: "n < 2 ^ 53 \<Longrightarrow> fl n = n"
proof -
  assume "n < 2 ^ 53"
  then have "bitlen n \<le> 53" by (rule bitlen_le)
  then have "bitlen n - 53 = 0" by simp
  then show ?thesis by (simp add: fl_def)
qed

lemma bitIndex_exact:
  assumes "h1 + i * h2 < 2 ^ 53"
  shows "bitIndex h1 h2 m i = js_mod (h1 + i * h2) m"
proof -
  have "i * h2 < 2 ^ 53"
    using assms by simp
  then have "fl (i * h2) = i * h2"
    by (rule fl_exact)
  moreover have "fl (h1 + i * h2) = h1 + i * h2"
    using assms by (rule fl_exact)
  ultimately show ?thesis
    by (simp add: bitIndex_def)
qed

lemma index_sum_bound:
  assumes "h1 < 2 ^ 32" "h2 < 2 ^ 32" "i < 2 ^ 21"
  shows "h1 + i * h2 < (2 ^ 53 :: nat)"
proof -
  have "i * h2 \<le> 2097151 * 4294967295"
    using assms by (intro mult_le_mono) simp_all
  then show ?thesis
    using assms(1) by simp
qed

text \<open>
  Claim C3, as amended.  On a filter with \<open>bits > 0\<close>, \<open>calculateBitIndices(key)\<close>
  returns exactly \<open>k\<close> entries, each of them an index below \<open>bits\<close>.  Entry \<open>i\<close> is
  \<open>(h1 + i * h2) mod bits\<close>, for the two seeded hashes \<open>h1\<close> and \<open>h2\<close> of the key,
  wherever \<open>h1 + i * h2 < 2 ^ 53\<close>, the range in which the arithmetic of doubles is
  exact; that is every entry if \<open>k \<le> 2 ^ 21\<close>.
\<close>

theorem calculateBitIndices_entries:
  "0 < m \<Longrightarrow>
   length (fst (calculateBitIndices H (run H (BloomFilter_new m h) calls) key)) = h
   \<and> (\<forall>i<h. \<exists>j<m. fst (calculateBitIndices H (run H (BloomFilter_new m h) calls) key) ! i = Some j)
   \<and> (\<forall>i<h. unat (H seedOne key) + i * unat (H seedTwo key) < 2 ^ 53 \<longrightarrow>
          fst (calculateBitIndices H (run H (BloomFilter_new m h) calls) key) ! i
            = Some ((unat (H seedOne key) + i * unat (H seedTwo key)) mod m))
   \<and> (h \<le> 2 ^ 21 \<longrightarrow>
        (\<forall>i<h. fst (calculateBitIndices H (run H (BloomFilter_new m h) calls) key) ! i
                 = Some ((unat (H seedOne key) + i * unat (H seedTwo key)) mod m)))"
proof -
  assume m: "0 < m"
  let ?f = "run H (BloomFilter_new m h) calls"
  let ?h1 = "unat (H seedOne key)" and ?h2 = "unat (H seedTwo key)"
  have f: "invar ?f" "bits ?f = m" "k ?f = h"
    by (simp_all add: run_invar invar_new run_bits_k new_fields)
  have idxs: "fst (calculateBitIndices H ?f key) = map (bitIndex ?h1 ?h2 m) [0..<h]"
    by (simp add: fst_calculateBitIndices_invar f)
  have range: "\<exists>j<m. bitIndex ?h1 ?h2 m i = Some j" for i
    using bitIndex_in_range [OF m] by blast
  have exact: "bitIndex ?h1 ?h2 m i = Some ((?h1 + i * ?h2) mod m)" if "?h1 + i * ?h2 < 2 ^ 53" for i
    using bitIndex_exact [OF that, of m] m by (simp add: js_mod_def)
  have h: "?h1 < 2 ^ 32" "?h2 < 2 ^ 32"
    using unsigned_less [of "H seedOne key", where ?'a = nat]
      unsigned_less [of "H seedTwo key", where ?'a = nat] by simp_all
  have small: "bitIndex ?h1 ?h2 m i = Some ((?h1 + i * ?h2) mod m)" if "i < h" "h \<le> 2 ^ 21" for i
  proof -
    from that have "i < 2 ^ 21" by simp
    then have "?h1 + i * ?h2 < 2 ^ 53"
      by (rule index_sum_bound [OF h])
    then show ?thesis by (rule exact)
  qed
  show ?thesis
    by (simp add: idxs range exact small)
qed

theorem calculateBitIndices_entries_witness:
  "(0::nat) < 8 \<and> (3::nat) \<le> 2 ^ 21
   \<and> unat (sampleHash seedOne ''a'') + 2 * unat (sampleHash seedTwo ''a'') < 2 ^ 53
   \<and> length (fst (calculateBitIndices sampleHash (run sampleHash (BloomFilter_new 8 3) [Add ''ab'']) ''a'')) = 3
   \<and> fst (calculateBitIndices sampleHash (run sampleHash (BloomFilter_new 8 3) [Add ''ab'']) ''a'') ! 2
       = Some ((unat (sampleHash seedOne ''a'') + 2 * unat (sampleHash seedTwo ''a'')) mod 8)
   \<and> fst (calculateBitIndices sampleHash (run sampleHash (BloomFilter_new 8 3) [Add ''ab'']) ''a'') ! 2
       = Some 2"
proof -
  have v: "unat (sampleHash seedOne ''a'') = 535345442" "unat (sampleHash seedTwo ''a'') = 312312420"
    by (simp_all add: sampleHash_def seedOne_def seedTwo_def)
  show ?thesis
    using calculateBitIndices_entries [of 8 sampleHash 3 "[Add ''ab'']" "''a''"]
    by (simp add: v)
qed

text \<open>
  Beyond \<open>2 ^ 53\<close> a double is an even number, so the rounded sum is even where
  \<open>h1 + i * h2\<close> is odd.  This does not depend on the digest: for every key whose first
  hash is odd and whose second hash is at least \<open>2 ^ 31\<close>, a filter of two bits has 0
  as its entry \<open>2 ^ 22\<close>, and \<open>(h1 + i * h2) mod 2\<close> is 1 there.
\<close>

lemma bitlen_gt: "2 ^ e \<le> n \<Longrightarrow> e < bitlen n"
proof (induction e arbitrary: n)
  case 0
  then show ?case by (subst bitlen.simps) simp
next
  case (Suc e)
  then have "2 ^ e \<le> n div 2" by simp
  then have "e < bitlen (n div 2)" by (rule Suc.IH)
  moreover have "(0::nat) < 2 ^ Suc e" by simp
  then have "n \<noteq> 0" using Suc.prems by linarith
  ultimately show ?case by (subst bitlen.simps) simp
qed

lemma fl_multiple: "2 ^ (bitlen n - 53) dvd fl n"
  by (simp add: fl_def Let_def)

lemma fl_even: "2 ^ 53 \<le> n \<Longrightarrow> even (fl n)"
proof -
  assume "2 ^ 53 \<le> n"
  then have "53 < bitlen n" by (rule bitlen_gt)
  then have "(2::nat) dvd 2 ^ (bitlen n - 53)" by simp
  then show ?thesis
    using fl_multiple [of n] by (rule dvd_trans)
qed

lemma fl_shifted:
  assumes "h2 < 2 ^ 32"
  shows "fl (2 ^ 22 * h2) = 2 ^ 22 * h2"
proof -
  let ?n = "2 ^ 22 * h2"
  have "?n < 2 ^ 54" using assms by simp
  then have "bitlen ?n \<le> 54" by (rule bitlen_le)
  then have "bitlen ?n - 53 = 0 \<or> bitlen ?n - 53 = 1" by auto
  moreover have "even ?n" by simp
  ultimately show ?thesis
    by (auto simp: fl_def Let_def)
qed

lemma bitIndex_rounded:
  assumes "odd h1" "2 ^ 31 \<le> h2" "h2 < 2 ^ 32"
  shows "bitIndex h1 h2 2 (2 ^ 22) = Some 0" and "(h1 + 2 ^ 22 * h2) mod 2 = 1"
proof -
  have "2 ^ 53 \<le> h1 + 2 ^ 22 * h2"
    using assms(2) by simp
  then have "even (fl (h1 + 2 ^ 22 * h2))"
    by (rule fl_even)
  then show "bitIndex h1 h2 2 (2 ^ 22) = Some 0"
    using fl_shifted [OF assms(3)] by (simp add: bitIndex_def js_mod_def)
  have "odd (h1 + 2 ^ 22 * h2)"
    using assms(1) by simp
  then show "(h1 + 2 ^ 22 * h2) mod 2 = 1"
    by (simp only: odd_iff_mod_2_eq_one)
qed

text \<open>
  The smallest number of hash functions at which an entry can differ is
  \<open>2 ^ 21 + 1\<close>.  With both hashes of the key equal to \<open>2 ^ 32 - 1\<close>, \<open>bits = 1000\<close> and
  \<open>k = 2 ^ 21 + 1\<close>, the sum \<open>hash1 + i * hash2\<close> for the last entry is
  9007203547611135, an odd number above \<open>2 ^ 53\<close>, and is rounded to 9007203547611136
  before the remainder is taken: entry 2097152 of the code is 136, and
  \<open>(h1 + i * h2) mod bits\<close> is 135.
\<close>

theorem calculateBitIndices_formula_counterexample:
  "fst (calculateBitIndices topHash (BloomFilter_new 1000 2097153) ''a'') ! 2097152 = Some 136
   \<and> (unat (topHash seedOne ''a'') + 2097152 * unat (topHash seedTwo ''a'')) mod 1000 = 135"
proof -
  have len: "bitlen 9007203547611135 = 54" "bitlen 9007199252643840 = 53"
    by (simp_all add: bitlen.simps)
  have "fl 9007199252643840 = 9007199252643840" "fl 9007203547611135 = 9007203547611136"
    by (simp_all add: fl_def len Let_def)
  then have "bitIndex 4294967295 4294967295 1000 2097152 = Some 136"
    by (simp add: bitIndex_def js_mod_def)
  then show ?thesis
    by (simp add: fst_calculateBitIndices new_fields topHash_def)
qed

section \<open>A run of the model\<close>

text \<open>
  An 8-bit filter with two hash functions and the sample digest: the key \<open>a\<close> sets the
  bits 2 and 6, the key \<open>b\<close> the bits 3 and 0.
\<close>

lemma sampleHash_a:
  "unat (sampleHash seedOne ''a'') = 535345442" "unat (sampleHash seedTwo ''a'') = 312312420"
  by (simp_all add: sampleHash_def seedOne_def seedTwo_def)

lemma sampleHash_b:
  "unat (sampleHash seedOne ''b'') = 535345443" "unat (sampleHash seedTwo ''b'') = 312312421"
  by (simp_all add: sampleHash_def seedOne_def seedTwo_def)

lemma upt_0_2: "[0..<2] = [0, 1]"
  by (simp add: numeral_2_eq_2)

lemma bitIndex_small:
  "h1 + i * h2 < 2 ^ 53 \<Longrightarrow> 0 < m \<Longrightarrow> bitIndex h1 h2 m i = Some ((h1 + i * h2) mod m)"
  by (simp add: bitIndex_exact js_mod_def)

lemma sample_indices:
  "fst (calculateBitIndices sampleHash (BloomFilter_new 8 2) ''a'') = [Some 2, Some 6]"
  "fst (calculateBitIndices sampleHash (add sampleHash (BloomFilter_new 8 2) ''a'') ''b'') = [Some 3, Some 0]"
  by (simp_all add: fst_calculateBitIndices_invar invar_new invar_add new_fields add_fields
      sampleHash_a sampleHash_b upt_0_2 bitIndex_small)



section \<open>No false negatives\<close>

text \<open>
  Claim C1.  Take a filter with \<open>bits > 0\<close> made by the constructor and used in any
  way.  Once \<open>add(K)\<close> has been called, \<open>contains(K)\<close> returns true, and it still does
  after any further calls on the filter (further calls of \<open>add\<close> among them): a bit
  that is set stays set.  The number of hash functions is arbitrary.
\<close>

theorem no_false_negatives:
  "0 < m \<Longrightarrow>
   fst (contains H (run H (add H (run H (BloomFilter_new m h) before) K) after) K) = True"
proof -
  assume m: "0 < m"
  let ?f = "run H (BloomFilter_new m h) before"
  let ?g = "run H (add H ?f K) after"
  have f: "invar ?f" "bits ?f = m"
    by (simp_all add: run_invar invar_new run_bits_k new_fields)
  have g: "invar ?g" "bits ?g = m" "k ?g = k ?f"
    by (simp_all add: run_invar invar_add f(1) run_bits_k add_fields new_fields)
  have same: "fst (calculateBitIndices H ?g K) = fst (calculateBitIndices H ?f K)"
    by (simp add: fst_calculateBitIndices_invar f g)
  have "list_all (BitVector_get (bitArray (add H ?f K))) (fst (calculateBitIndices H ?f K))"
    by (rule add_sets_indices) (simp_all add: f m)
  then have "list_all (BitVector_get (bitArray ?g)) (fst (calculateBitIndices H ?f K))"
    by (simp add: list_all_iff run_get_mono)
  then show ?thesis
    by (simp add: contains_def split_beta contains_loop_list_all same
        snd_calculateBitIndices_invar g)
qed

theorem no_false_negatives_witness:
  "(0::nat) < 8
   \<and> fst (contains sampleHash (BloomFilter_new 8 2) ''a'') = False
   \<and> fst (contains sampleHash (add sampleHash (BloomFilter_new 8 2) ''a'') ''a'') = True
   \<and> fst (contains sampleHash
         (run sampleHash (add sampleHash (run sampleHash (BloomFilter_new 8 2) [Add ''x'']) ''a'')
            [Add ''y'', Contains ''z'', Add ''a''])
         ''a'') = True"
proof -
  have "fst (contains sampleHash (BloomFilter_new 8 2) ''a'') = False"
    by (simp add: contains_fields sample_indices new_fields) (simp add: BitVector_get_def)
  then show ?thesis
    using no_false_negatives [of 8 sampleHash 2 "[]" "''a''" "[]"]
      no_false_negatives [of 8 sampleHash 2 "[Add ''x'']" "''a''"
        "[Add ''y'', Contains ''z'', Add ''a'']"]
    by (simp add: run_def)
qed

section \<open>Argument checks of estimateNumberBits\<close>

text \<open>
  Claim C4.  For \<open>expectedInserts \<le> 0\<close> the function returns 0 whatever the rate is,
  also for a rate outside \<open>[0, 1]\<close>; for \<open>expectedInserts > 0\<close> it throws exactly when
  the rate is below 0 or above 1.  So \<open>estimateNumberBits(1000, -0.1)\<close> and
  \<open>estimateNumberBits(1000, 1.5)\<close> throw and \<open>estimateNumberBits(0, -0.1)\<close> is 0.
\<close>

theorem estimateNumberBits_check_order:
  "(n \<le> 0 \<longrightarrow> estimateNumberBits n p = Inr (Num 0))
   \<and> (0 < n \<longrightarrow> (estimateNumberBits n p = Inl InvalidFalsePositiveRate) = (p < 0 \<or> 1 < p))
   \<and> (0 < n \<longrightarrow> (\<exists>e. estimateNumberBits n p = Inl e) = (p < 0 \<or> 1 < p))
   \<and> estimateNumberBits 1000 (- 1 / 10) = Inl InvalidFalsePositiveRate
   \<and> estimateNumberBits 1000 (15 / 10) = Inl InvalidFalsePositiveRate
   \<and> estimateNumberBits 0 (- 1 / 10) = Inr (Num 0)"
  by (auto simp: estimateNumberBits_def Let_def)

theorem estimateNumberBits_check_order_witness:
  "(- 3 :: int) \<le> 0 \<and> estimateNumberBits (- 3) 7 = Inr (Num 0)
   \<and> (0 :: int) < 5 \<and> (2 :: real) > 1 \<and> estimateNumberBits 5 2 = Inl InvalidFalsePositiveRate
   \<and> (\<exists>e. estimateNumberBits 5 2 = Inl e)"
  using estimateNumberBits_check_order [of "- 3" 7] estimateNumberBits_check_order [of 5 2]
  by simp

section \<open>Bounds for the logarithms\<close>







lemma ln2_pos: "0 < ln (2::real)"
  by simp







section \<open>The number of bits\<close>




section \<open>Querying changes nothing\<close>

text \<open>
  Claim C6.  On a filter made by the constructor and used in any way,
  \<open>calculateBitIndices\<close> and \<open>contains\<close> leave the filter as it was, and
  \<open>calculateBitIndices(key)\<close> returns what it returned on the new filter: the same
  sequence on every call, whatever was called before.  On any filter at all, both
  calls leave the bit array and \<open>inserts\<close> untouched and both hash instances in their
  seeded state.
\<close>

theorem querying_is_pure:
  "snd (calculateBitIndices H (run H (BloomFilter_new m h) calls) key) = run H (BloomFilter_new m h) calls
   \<and> snd (contains H (run H (BloomFilter_new m h) calls) key) = run H (BloomFilter_new m h) calls
   \<and> fst (calculateBitIndices H (run H (BloomFilter_new m h) calls) key)
       = fst (calculateBitIndices H (BloomFilter_new m h) key)
   \<and> hashOne (snd (calculateBitIndices H g key)) = MurMur_new [] seedOne
   \<and> hashTwo (snd (calculateBitIndices H g key)) = MurMur_new [] seedTwo
   \<and> bitArray (snd (calculateBitIndices H g key)) = bitArray g
   \<and> inserts (snd (calculateBitIndices H g key)) = inserts g
   \<and> hashOne (snd (contains H g key)) = MurMur_new [] seedOne
   \<and> hashTwo (snd (contains H g key)) = MurMur_new [] seedTwo
   \<and> bitArray (snd (contains H g key)) = bitArray g
   \<and> inserts (snd (contains H g key)) = inserts g"
proof -
  let ?f = "run H (BloomFilter_new m h) calls"
  have f: "invar ?f" "bits ?f = m" "k ?f = h"
    by (simp_all add: run_invar invar_new run_bits_k new_fields)
  have "snd (calculateBitIndices H ?f key) = ?f"
    using f(1) by (rule snd_calculateBitIndices_invar)
  moreover have "fst (calculateBitIndices H ?f key) = fst (calculateBitIndices H (BloomFilter_new m h) key)"
    by (simp add: fst_calculateBitIndices_invar f invar_new new_fields)
  ultimately show ?thesis
    by (simp add: contains_fields snd_calculateBitIndices)
qed


section \<open>The estimated false positive rate\<close>













section \<open>The number of hash functions\<close>

text \<open>
  Where \<open>expectedInserts\<close> is not zero, the result is an integer, at least 1: the ceiling
  of \<open>(bits / expectedInserts) * ln 2\<close> if that is greater than 1, and 1 otherwise.
\<close>

lemma optimalNumHashFunctions_floor:
  assumes "n \<noteq> 0"
  shows "\<exists>z\<ge>1. optimalNumHashFunctions n (Num (of_int b)) = Num (of_int z)
     \<and> z = (if 1 < of_int b / of_int n * ln (2::real) then \<lceil>of_int b / of_int n * ln (2::real)\<rceil> else 1)"
proof (cases "1 < of_int b / of_int n * ln (2::real)")
  case True
  then have "1 \<le> \<lceil>of_int b / of_int n * ln (2::real)\<rceil>"
    by (simp add: less_ceiling_iff)
  with True assms show ?thesis
    by (simp add: optimalNumHashFunctions_def Let_def)
next
  case False
  with assms show ?thesis
    by (simp add: optimalNumHashFunctions_def Let_def)
qed

text \<open>
  Claim C8, at the input where the code departs from it.  For \<open>expectedInserts = 0\<close> and
  \<open>bits = 48\<close> the quotient is \<open>Infinity\<close>, which is greater than 1, and the function
  returns \<open>Math.ceil(Infinity) = Infinity\<close>, not the minimum of 1.  At the two inputs of
  the test "Should return a the min value of 1 for a 0 capacity", \<open>(0, 0)\<close> and
  \<open>(-3646, 48)\<close>, it returns 1.
\<close>

theorem optimalNumHashFunctions_zero_inserts:
  "optimalNumHashFunctions 0 (Num 48) = PosInf
   \<and> optimalNumHashFunctions 0 (Num 0) = Num 1
   \<and> optimalNumHashFunctions (- 3646) (Num 48) = Num 1"
proof -
  have "(48 / - 3646) * ln (2::real) \<le> 0"
    by (simp add: mult_le_0_iff)
  then have "\<not> 1 < (48 / - 3646) * ln (2::real)"
    by linarith
  then show ?thesis
    by (simp add: optimalNumHashFunctions_def Let_def)
qed


section \<open>The capacity of a SafeBloomFilter\<close>


lemma SafeBloomFilter_add_full:
  "capacity f \<le> int (inserts f) \<Longrightarrow> SafeBloomFilter_add H f key = (Some FilterAtCapacity, f)"
  by (simp add: SafeBloomFilter_add_def)


lemma SafeBloomFilter_adds_full:
  "capacity f \<le> int (inserts f) \<Longrightarrow>
   SafeBloomFilter_adds H f keys = (replicate (length keys) (Some FilterAtCapacity), f)"
  by (induction keys) (simp_all add: SafeBloomFilter_add_full)








lemma optimal_zero_bits: "n \<le> 0 \<Longrightarrow> optimalNumHashFunctions n (Num 0) = Num 1"
  by (cases "n = 0") (simp_all add: optimalNumHashFunctions_def Let_def)

lemma SafeBloomFilter_new_nonpositive:
  "n \<le> 0 \<Longrightarrow>
   SafeBloomFilter_new n p =
     Inr \<lparr>bits = 0, k = 1, bitArray = BitVector_new 0,
          hashOne = MurMur_new [] seedOne, hashTwo = MurMur_new [] seedTwo,
          inserts = 0, capacity = n\<rparr>"
  by (simp add: SafeBloomFilter_new_def estimateNumberBits_def optimal_zero_bits to_length_def)

text \<open>
  Claim C10.  A SafeBloomFilter constructed with \<open>expectedInserts \<le> 0\<close>, whatever the
  rate, is made without error, with \<open>bits = 0\<close>, \<open>k = 1\<close> and
  \<open>capacity = expectedInserts\<close>; every \<open>add\<close> on it, from the first on and for every
  key, throws "Filter at capacity" and leaves the filter as it was.
\<close>

theorem nonpositive_capacity_rejects_all:
  "n \<le> 0 \<Longrightarrow>
   (\<exists>f. SafeBloomFilter_new n p = Inr f
      \<and> bits f = 0 \<and> k f = 1 \<and> capacity f = n \<and> inserts f = 0
      \<and> SafeBloomFilter_add H f key = (Some FilterAtCapacity, f)
      \<and> SafeBloomFilter_adds H f keys = (replicate (length keys) (Some FilterAtCapacity), f))"
proof -
  assume n: "n \<le> 0"
  let ?f = "\<lparr>bits = 0, k = 1, bitArray = BitVector_new 0,
          hashOne = MurMur_new [] seedOne, hashTwo = MurMur_new [] seedTwo,
          inserts = 0, capacity = n\<rparr>"
  have full: "capacity ?f \<le> int (inserts ?f)"
    using n by simp
  have "SafeBloomFilter_new n p = Inr ?f"
    using n by (rule SafeBloomFilter_new_nonpositive)
  moreover have "SafeBloomFilter_add H ?f key = (Some FilterAtCapacity, ?f)"
    using full by (rule SafeBloomFilter_add_full)
  moreover have "SafeBloomFilter_adds H ?f keys = (replicate (length keys) (Some FilterAtCapacity), ?f)"
    using full by (rule SafeBloomFilter_adds_full)
  ultimately show ?thesis by simp
qed

theorem nonpositive_capacity_rejects_all_witness:
  "(- 2 :: int) \<le> 0
   \<and> (\<exists>f. SafeBloomFilter_new (- 2) 7 = Inr f
      \<and> bits f = 0 \<and> k f = 1 \<and> capacity f = - 2 \<and> inserts f = 0
      \<and> SafeBloomFilter_add sampleHash f ''a'' = (Some FilterAtCapacity, f)
      \<and> SafeBloomFilter_adds sampleHash f [''a'', ''b''] = (replicate (length [''a'', ''b'']) (Some FilterAtCapacity), f))"
  using nonpositive_capacity_rejects_all [of "- 2" 7 sampleHash "''a''" "[''a'', ''b'']"]
  by simp

section \<open>The two variants of add\<close>

lemma set_already: "BitVector_get bv idx \<Longrightarrow> BitVector_set bv idx True = bv"
  by (auto simp: BitVector_get_def BitVector_set_def list_update_same_conv split: option.splits if_splits)

lemma fst_index_add_loop: "fst (index_add_loop bv n idxs) = set_loop bv idxs"
  by (induction idxs arbitrary: bv n) simp_all

lemma snd_index_add_loop_le: "snd (index_add_loop bv n idxs) \<le> n + length idxs"
proof (induction idxs arbitrary: bv n)
  case Nil
  then show ?case by simp
next
  case (Cons idx idxs)
  show ?case
    using Cons.IH [of "BitVector_set bv idx True" "n + 1"]
      Cons.IH [of "BitVector_set bv idx True" n]
    by simp
qed

lemma snd_index_add_loop_all:
  "(snd (index_add_loop bv n idxs) = n + length idxs) = list_all (BitVector_get bv) idxs"
proof (induction idxs arbitrary: bv n)
  case Nil
  then show ?case by simp
next
  case (Cons idx idxs)
  show ?case
  proof (cases "BitVector_get bv idx")
    case True
    then show ?thesis
      using Cons.IH [of bv "n + 1"] by (simp add: set_already)
  next
    case False
    have "snd (index_add_loop (BitVector_set bv idx True) n idxs) \<le> n + length idxs"
      by (rule snd_index_add_loop_le)
    with False show ?thesis by simp
  qed
qed

lemma numAlreadySet_less:
  "(snd (index_add_loop bv 0 idxs) < length idxs) = (\<not> list_all (BitVector_get bv) idxs)"
  using snd_index_add_loop_all [of bv 0 idxs] snd_index_add_loop_le [of bv 0 idxs]
  by auto

lemma fst_index_calculateBitIndices:
  "fst (index_calculateBitIndices H g key) =
     map (bitIndex (unat (H (mm_seed (hashOne_i g)) (mm_fed (hashOne_i g) @ key)))
                   (unat (H (mm_seed (hashTwo_i g)) (mm_fed (hashTwo_i g) @ key))) (size_i g))
         [0..<k_i g]"
  by (simp add: index_calculateBitIndices_def Let_def kHashes_loop_eq MurMur_hash_def
      MurMur_result_def)

lemma snd_index_calculateBitIndices:
  "snd (index_calculateBitIndices H g key) =
     g\<lparr>hashOne_i := MurMur_new [] seedOne, hashTwo_i := MurMur_new [] seedTwo\<rparr>"
  by (simp add: index_calculateBitIndices_def Let_def MurMur_reset_def MurMur_new_def)

lemma index_add_fields:
  "bitArray_i (index_add H g key)
     = set_loop (bitArray_i g) (fst (index_calculateBitIndices H g key))"
  "count_i (index_add H g key)
     = (if list_all (BitVector_get (bitArray_i g)) (fst (index_calculateBitIndices H g key))
        then count_i g else js_plus_one (count_i g))"
  "size_i (index_add H g key) = size_i g" "k_i (index_add H g key) = k_i g"
  "hashOne_i (index_add H g key) = MurMur_new [] seedOne"
  "hashTwo_i (index_add H g key) = MurMur_new [] seedTwo"
  by (simp_all add: index_add_def split_beta Let_def snd_index_calculateBitIndices
      fst_index_add_loop numAlreadySet_less)


text \<open>
  Claim C9.  The \<open>add\<close> of BloomFilter.js raises \<open>inserts\<close> by one on every call.  The
  \<open>add\<close> of index.js executes \<open>count += 1\<close> exactly when one of the indexed bits was not
  set before the call.  Both set the same bits.  So the two differ in their counters:
  adding a key a second time raises \<open>inserts\<close> and leaves \<open>count\<close> alone.  (The
  constructor of index.js does not assign \<open>count\<close>, so what \<open>count += 1\<close> leaves there
  on a new filter is \<open>NaN\<close>.)
\<close>

theorem add_variants_diverge:
  "inserts (add H f key) = inserts f + 1
   \<and> count_i (index_add H g key)
       = (if list_all (BitVector_get (bitArray_i g)) (fst (index_calculateBitIndices H g key))
          then count_i g else js_plus_one (count_i g))
   \<and> (bitArray_i g = bitArray f \<and> size_i g = bits f \<and> k_i g = k f
        \<and> hashOne_i g = hashOne f \<and> hashTwo_i g = hashTwo f
       \<longrightarrow> bitArray_i (index_add H g key) = bitArray (add H f key))
   \<and> (0 < m \<longrightarrow>
        bitArray_i (index_add H (index_add H (index_BloomFilter_new m h) key) key)
          = bitArray (add H (add H (BloomFilter_new m h) key) key)
        \<and> inserts (add H (add H (BloomFilter_new m h) key) key)
          = inserts (add H (BloomFilter_new m h) key) + 1
        \<and> count_i (index_add H (index_add H (index_BloomFilter_new m h) key) key)
          = count_i (index_add H (index_BloomFilter_new m h) key))
   \<and> (0 < h \<longrightarrow>
        inserts (add H (BloomFilter_new m h) key) = 1
        \<and> count_i (index_add H (index_BloomFilter_new m h) key) = Number NaN)"
proof (intro conjI impI)
  show "inserts (add H f key) = inserts f + 1"
    by (simp add: add_fields)
  show "count_i (index_add H g key)
       = (if list_all (BitVector_get (bitArray_i g)) (fst (index_calculateBitIndices H g key))
          then count_i g else js_plus_one (count_i g))"
    by (rule index_add_fields)
next
  assume "bitArray_i g = bitArray f \<and> size_i g = bits f \<and> k_i g = k f
        \<and> hashOne_i g = hashOne f \<and> hashTwo_i g = hashTwo f"
  then show "bitArray_i (index_add H g key) = bitArray (add H f key)"
    by (simp add: index_add_fields add_fields fst_index_calculateBitIndices fst_calculateBitIndices)
next
  assume m: "0 < m"
  let ?f0 = "BloomFilter_new m h" and ?g0 = "index_BloomFilter_new m h"
  let ?idxs = "map (bitIndex (unat (H seedOne key)) (unat (H seedTwo key)) m) [0..<h]"
  have f0: "fst (calculateBitIndices H ?f0 key) = ?idxs"
    by (simp add: fst_calculateBitIndices_invar invar_new new_fields)
  have f1: "fst (calculateBitIndices H (add H ?f0 key) key) = ?idxs"
    by (simp add: fst_calculateBitIndices_invar invar_add invar_new add_fields new_fields)
  have g0: "fst (index_calculateBitIndices H ?g0 key) = ?idxs"
    by (simp add: fst_index_calculateBitIndices index_BloomFilter_new_def MurMur_new_def)
  have g1: "fst (index_calculateBitIndices H (index_add H ?g0 key) key) = ?idxs"
    by (simp add: fst_index_calculateBitIndices index_add_fields MurMur_new_def)
       (simp add: index_BloomFilter_new_def)
  have arr: "bitArray_i ?g0 = bitArray ?f0"
    by (simp add: index_BloomFilter_new_def BloomFilter_new_def)
  show "bitArray_i (index_add H (index_add H ?g0 key) key) = bitArray (add H (add H ?f0 key) key)"
    by (simp add: index_add_fields add_fields f0 f1 g0 g1 arr)
  show "inserts (add H (add H ?f0 key) key) = inserts (add H ?f0 key) + 1"
    by (simp add: add_fields)
  have "list_all (BitVector_get (bitArray (add H ?f0 key))) (fst (calculateBitIndices H ?f0 key))"
    by (rule add_sets_indices) (simp_all add: invar_new new_fields m)
  then have "list_all (BitVector_get (bitArray_i (index_add H ?g0 key))) ?idxs"
    by (simp add: index_add_fields add_fields f0 g0 arr)
  then show "count_i (index_add H (index_add H ?g0 key) key) = count_i (index_add H ?g0 key)"
    by (simp add: index_add_fields(2) g1)
next
  assume h: "0 < h"
  let ?g0 = "index_BloomFilter_new m h"
  show "inserts (add H (BloomFilter_new m h) key) = 1"
    by (simp add: add_fields new_fields)
  have "length (fst (index_calculateBitIndices H ?g0 key)) = h"
    by (simp add: fst_index_calculateBitIndices index_BloomFilter_new_def)
  with h have "fst (index_calculateBitIndices H ?g0 key) \<noteq> []"
    by auto
  then have "\<not> list_all (BitVector_get (BitVector_new m)) (fst (index_calculateBitIndices H ?g0 key))"
    by (cases "fst (index_calculateBitIndices H ?g0 key)") (simp_all add: get_new_False)
  moreover have "bitArray_i ?g0 = BitVector_new m" "count_i ?g0 = Undefined"
    by (simp_all add: index_BloomFilter_new_def)
  ultimately show "count_i (index_add H ?g0 key) = Number NaN"
    by (simp add: index_add_fields(2))
qed

theorem add_variants_diverge_witness:
  "bitArray_i (index_BloomFilter_new 8 2) = bitArray (BloomFilter_new 8 2)
   \<and> size_i (index_BloomFilter_new 8 2) = bits (BloomFilter_new 8 2)
   \<and> k_i (index_BloomFilter_new 8 2) = k (BloomFilter_new 8 2)
   \<and> hashOne_i (index_BloomFilter_new 8 2) = hashOne (BloomFilter_new 8 2)
   \<and> hashTwo_i (index_BloomFilter_new 8 2) = hashTwo (BloomFilter_new 8 2)
   \<and> (0::nat) < 8 \<and> (0::nat) < 2
   \<and> bitArray_i (index_add sampleHash (index_BloomFilter_new 8 2) ''a'')
       = bitArray (add sampleHash (BloomFilter_new 8 2) ''a'')
   \<and> inserts (add sampleHash (add sampleHash (BloomFilter_new 8 2) ''a'') ''a'')
       = inserts (add sampleHash (BloomFilter_new 8 2) ''a'') + 1
   \<and> count_i (index_add sampleHash (index_add sampleHash (index_BloomFilter_new 8 2) ''a'') ''a'')
       = count_i (index_add sampleHash (index_BloomFilter_new 8 2) ''a'')
   \<and> inserts (add sampleHash (BloomFilter_new 8 2) ''a'') = 1
   \<and> count_i (index_add sampleHash (index_BloomFilter_new 8 2) ''a'') = Number NaN"
proof -
  have same: "bitArray_i (index_BloomFilter_new 8 2) = bitArray (BloomFilter_new 8 2)
      \<and> size_i (index_BloomFilter_new 8 2) = bits (BloomFilter_new 8 2)
      \<and> k_i (index_BloomFilter_new 8 2) = k (BloomFilter_new 8 2)
      \<and> hashOne_i (index_BloomFilter_new 8 2) = hashOne (BloomFilter_new 8 2)
      \<and> hashTwo_i (index_BloomFilter_new 8 2) = hashTwo (BloomFilter_new 8 2)"
    by (simp add: index_BloomFilter_new_def BloomFilter_new_def)
  have pos: "(0::nat) < 8" "(0::nat) < 2"
    by simp_all
  show ?thesis
    using add_variants_diverge [of sampleHash "BloomFilter_new 8 2" "''a''"
        "index_BloomFilter_new 8 2" 8 2] same pos
    by blast
qed

end
